theory Spec2Isabelle
  imports Complex_Main
begin

section \<open>The in-memory voice chat simulation (simple-voice-test.js)\<close>

text \<open>
  The class \<open>SimpleVoiceChatDemo\<close> keeps four JavaScript \<open>Map\<close>s: rooms, messages,
  storage and users. Every object is reachable through its map only, so a mutation of
  an object fetched with \<open>get\<close> is modelled as an update of the map at that key.

  Identifiers are built in the source from \<open>Date.now()\<close> and \<open>Math.random()\<close>, and
  time stamps are \<open>new Date()\<close>. Both are inputs from the environment: every operation
  below takes the identifier it generates and the current time as arguments.

  A \<open>throw\<close> is a value of type \<open>error\<close>. An operation returns its outcome together
  with the state it leaves behind, because the source may mutate before it throws.
\<close>

type_synonym ident = string
type_synonym date = nat

record user =
  user_id :: ident
  user_name :: string
  joinedRooms :: "ident list"
  messagesSent :: nat

record room =
  room_id :: ident
  room_name :: string
  host :: ident
  participants :: "ident list"
  isActive :: bool
  createdAt :: date
  lastActivity :: date
  messageCount :: nat

record message =
  msg_id :: ident
  sender :: ident
  roomId :: ident
  voiceData :: "nat list"
  targetPDAIndex :: nat
  sequenceNumber :: nat
  dataLength :: nat
  timestamp :: date

record pda =
  pda_index :: nat
  capacity :: nat
  used :: nat
  pda_messages :: "ident list"

record state =
  rooms :: "ident \<rightharpoonup> room"
  messages :: "ident \<rightharpoonup> message"
  storage :: "nat \<rightharpoonup> pda"
  users :: "ident \<rightharpoonup> user"

text \<open>
  The thrown errors, by message:
  \<open>NotFound\<close> is "Room not found" and "Room or user not found";
  \<open>InactiveRoom\<close> is "Room is not active"; \<open>AlreadyMember\<close> is "User already in room";
  \<open>RoomFull\<close> is "Room is full (max 10 participants)"; \<open>NotMember\<close> is
  "User not in room"; \<open>PayloadTooLarge\<close> is "Voice data too large (max 29KB)";
  \<open>SlotFull i\<close> is "Storage PDA i full"; \<open>TooManyTargets\<close> is
  "Too many target PDAs (max 10)"; \<open>TypeError\<close> is what JavaScript raises on reading a
  property of \<open>undefined\<close>.
\<close>

datatype error =
    NotFound
  | InactiveRoom
  | AlreadyMember
  | RoomFull
  | NotMember
  | PayloadTooLarge
  | SlotFull nat
  | TooManyTargets
  | TypeError

definition init :: state where
  "init = \<lparr>rooms = Map.empty, messages = Map.empty, storage = Map.empty, users = Map.empty\<rparr>"

definition createUser :: "ident \<Rightarrow> string \<Rightarrow> state \<Rightarrow> (error + ident) \<times> state" where
  "createUser userId name s =
     (Inr userId,
      s\<lparr>users := (users s)(userId \<mapsto>
           \<lparr>user_id = userId, user_name = name, joinedRooms = [], messagesSent = 0\<rparr>)\<rparr>)"

definition createRoom ::
  "ident \<Rightarrow> date \<Rightarrow> ident \<Rightarrow> string \<Rightarrow> state \<Rightarrow> (error + ident) \<times> state" where
  "createRoom newRoomId now hostUserId roomName s =
     (let s1 = s\<lparr>rooms := (rooms s)(newRoomId \<mapsto>
                  \<lparr>room_id = newRoomId, room_name = roomName, host = hostUserId,
                   participants = [hostUserId], isActive = True, createdAt = now,
                   lastActivity = now, messageCount = 0\<rparr>)\<rparr>
      in case users s1 hostUserId of
           None \<Rightarrow> (Inl TypeError, s1)
         | Some u \<Rightarrow>
             (Inr newRoomId,
              s1\<lparr>users := (users s1)(hostUserId \<mapsto>
                    u\<lparr>joinedRooms := joinedRooms u @ [newRoomId]\<rparr>)\<rparr>))"

definition joinRoom :: "date \<Rightarrow> ident \<Rightarrow> ident \<Rightarrow> state \<Rightarrow> (error + unit) \<times> state" where
  "joinRoom now userId rid s =
     (case rooms s rid of
        None \<Rightarrow> (Inl NotFound, s)
      | Some r \<Rightarrow>
          if \<not> isActive r then (Inl InactiveRoom, s)
          else if userId \<in> set (participants r) then (Inl AlreadyMember, s)
          else if length (participants r) \<ge> 10 then (Inl RoomFull, s)
          else
            (let s1 = s\<lparr>rooms := (rooms s)(rid \<mapsto>
                         r\<lparr>participants := participants r @ [userId], lastActivity := now\<rparr>)\<rparr>
             in case users s userId of
                  None \<Rightarrow> (Inl TypeError, s1)
                | Some u \<Rightarrow>
                    (Inr (),
                     s1\<lparr>users := (users s1)(userId \<mapsto>
                           u\<lparr>joinedRooms := joinedRooms u @ [rid]\<rparr>)\<rparr>)))"

definition sendVoiceMessage ::
  "ident \<Rightarrow> date \<Rightarrow> ident \<Rightarrow> ident \<Rightarrow> nat list \<Rightarrow> nat \<Rightarrow> state \<Rightarrow> (error + ident) \<times> state" where
  "sendVoiceMessage messageId now userId rid data pdaIndex s =
     (case rooms s rid of
        None \<Rightarrow> (Inl NotFound, s)
      | Some r \<Rightarrow>
         (case users s userId of
            None \<Rightarrow> (Inl NotFound, s)
          | Some u \<Rightarrow>
              if userId \<notin> set (participants r) then (Inl NotMember, s)
              else if length data > 29 * 1024 then (Inl PayloadTooLarge, s)
              else
                (let seqNo = messageCount r + 1;
                     s1 = s\<lparr>messages := (messages s)(messageId \<mapsto>
                            \<lparr>msg_id = messageId, sender = userId, roomId = rid,
                             voiceData = data, targetPDAIndex = pdaIndex,
                             sequenceNumber = seqNo, dataLength = length data,
                             timestamp = now\<rparr>)\<rparr>;
                     s2 = s1\<lparr>rooms := (rooms s1)(rid \<mapsto>
                            r\<lparr>messageCount := messageCount r + 1, lastActivity := now\<rparr>),
                          users := (users s1)(userId \<mapsto>
                            u\<lparr>messagesSent := messagesSent u + 1\<rparr>)\<rparr>;
                     storagePDA = (case storage s2 pdaIndex of
                            None \<Rightarrow> \<lparr>pda_index = pdaIndex, capacity = 30 * 1024,
                                     used = 0, pda_messages = []\<rparr>
                          | Some p \<Rightarrow> p);
                     s3 = s2\<lparr>storage := (storage s2)(pdaIndex \<mapsto> storagePDA)\<rparr>
                 in if used storagePDA + length data > capacity storagePDA
                    then (Inl (SlotFull pdaIndex), s3)
                    else (Inr messageId,
                          s3\<lparr>storage := (storage s3)(pdaIndex \<mapsto>
                                storagePDA\<lparr>used := used storagePDA + length data,
                                  pda_messages := pda_messages storagePDA @ [messageId]\<rparr>)\<rparr>))))"

text \<open>
  In \<open>sendVoiceMessage\<close> the source creates the storage entry only when the key is
  absent; \<open>storagePDA\<close> is then the entry under the key. Writing \<open>storagePDA\<close> back
  under its key (state \<open>s3\<close>) changes nothing when the entry was already there.
\<close>

text \<open>
  The loop of \<open>broadcastVoiceMessage\<close>: one \<open>sendVoiceMessage\<close> per target, in order.
  The \<open>catch\<close> only logs, so a failed target adds nothing to \<open>messageIds\<close> while the
  state that the failed send left behind is kept. \<open>gen i\<close> is the identifier that the
  send for the target at position \<open>i\<close> generates.
\<close>

fun broadcast_loop ::
  "(nat \<Rightarrow> ident) \<Rightarrow> date \<Rightarrow> ident \<Rightarrow> ident \<Rightarrow> nat list \<Rightarrow> nat \<Rightarrow> nat list \<Rightarrow> state
     \<Rightarrow> ident list \<times> state" where
  "broadcast_loop gen now userId rid data i [] s = ([], s)"
| "broadcast_loop gen now userId rid data i (pdaIndex # rest) s =
     (case sendVoiceMessage (gen i) now userId rid data pdaIndex s of
        (Inr messageId, s') \<Rightarrow>
          (case broadcast_loop gen now userId rid data (Suc i) rest s' of
             (messageIds, s'') \<Rightarrow> (messageId # messageIds, s''))
      | (Inl e, s') \<Rightarrow> broadcast_loop gen now userId rid data (Suc i) rest s')"

definition broadcastVoiceMessage ::
  "(nat \<Rightarrow> ident) \<Rightarrow> date \<Rightarrow> ident \<Rightarrow> ident \<Rightarrow> nat list \<Rightarrow> nat list \<Rightarrow> state
     \<Rightarrow> (error + ident list) \<times> state" where
  "broadcastVoiceMessage gen now userId rid data targetPDAs s =
     (case rooms s rid of
        None \<Rightarrow> (Inl NotFound, s)
      | Some r \<Rightarrow>
         (case users s userId of
            None \<Rightarrow> (Inl NotFound, s)
          | Some u \<Rightarrow>
              if length targetPDAs > 10 then (Inl TooManyTargets, s)
              else (case broadcast_loop gen now userId rid data 0 targetPDAs s of
                      (messageIds, s') \<Rightarrow> (Inr messageIds, s'))))"

definition leaveRoom :: "date \<Rightarrow> ident \<Rightarrow> ident \<Rightarrow> state \<Rightarrow> (error + unit) \<times> state" where
  "leaveRoom now userId rid s =
     (case rooms s rid of
        None \<Rightarrow> (Inl NotFound, s)
      | Some r \<Rightarrow>
         (case users s userId of
            None \<Rightarrow> (Inl NotFound, s)
          | Some u \<Rightarrow>
              if userId \<notin> set (participants r) then (Inl NotMember, s)
              else
                (let ps = remove1 userId (participants r);
                     r' = r\<lparr>participants := ps, lastActivity := now,
                            isActive := (if ps = [] then False else isActive r)\<rparr>;
                     u' = u\<lparr>joinedRooms := remove1 rid (joinedRooms u)\<rparr>
                 in (Inr (), s\<lparr>rooms := (rooms s)(rid \<mapsto> r'),
                                users := (users s)(userId \<mapsto> u')\<rparr>))))"

subsection \<open>Sequences of calls\<close>

datatype op =
    CreateUser ident string
  | CreateRoom ident date ident string
  | JoinRoom date ident ident
  | SendVoiceMessage ident date ident ident "nat list" nat
  | BroadcastVoiceMessage "nat \<Rightarrow> ident" date ident ident "nat list" "nat list"
  | LeaveRoom date ident ident

text \<open>The state after one call, whether it returned or threw.\<close>

fun step :: "op \<Rightarrow> state \<Rightarrow> state" where
  "step (CreateUser userId name) s = snd (createUser userId name s)"
| "step (CreateRoom newRoomId now hostUserId roomName) s =
     snd (createRoom newRoomId now hostUserId roomName s)"
| "step (JoinRoom now userId rid) s = snd (joinRoom now userId rid s)"
| "step (SendVoiceMessage messageId now userId rid data pdaIndex) s =
     snd (sendVoiceMessage messageId now userId rid data pdaIndex s)"
| "step (BroadcastVoiceMessage gen now userId rid data targetPDAs) s =
     snd (broadcastVoiceMessage gen now userId rid data targetPDAs s)"
| "step (LeaveRoom now userId rid) s = snd (leaveRoom now userId rid s)"

text \<open>Whether the call returns normally (does not throw).\<close>

fun returns :: "op \<Rightarrow> state \<Rightarrow> bool" where
  "returns (CreateUser userId name) s = (\<not> isl (fst (createUser userId name s)))"
| "returns (CreateRoom newRoomId now hostUserId roomName) s =
     (\<not> isl (fst (createRoom newRoomId now hostUserId roomName s)))"
| "returns (JoinRoom now userId rid) s = (\<not> isl (fst (joinRoom now userId rid s)))"
| "returns (SendVoiceMessage messageId now userId rid data pdaIndex) s =
     (\<not> isl (fst (sendVoiceMessage messageId now userId rid data pdaIndex s)))"
| "returns (BroadcastVoiceMessage gen now userId rid data targetPDAs) s =
     (\<not> isl (fst (broadcastVoiceMessage gen now userId rid data targetPDAs s)))"
| "returns (LeaveRoom now userId rid) s = (\<not> isl (fst (leaveRoom now userId rid s)))"

fun run :: "op list \<Rightarrow> state \<Rightarrow> state" where
  "run [] s = s"
| "run (c # cs) s = run cs (step c s)"

text \<open>
  The identifiers a call generates are fresh: \<open>fresh\<close> says that the user or room
  identifier of a creating call is not in use yet (the source draws it from the clock
  and a random number). \<open>calls_succeed\<close> holds for a sequence of calls each of which
  returns normally with a fresh identifier.
\<close>

fun fresh :: "op \<Rightarrow> state \<Rightarrow> bool" where
  "fresh (CreateUser userId name) s = (users s userId = None)"
| "fresh (CreateRoom newRoomId now hostUserId roomName) s = (rooms s newRoomId = None)"
| "fresh c s = True"

fun calls_succeed :: "op list \<Rightarrow> state \<Rightarrow> bool" where
  "calls_succeed [] s = True"
| "calls_succeed (c # cs) s = (returns c s \<and> fresh c s \<and> calls_succeed cs (step c s))"

text \<open>Whether a call generates the room identifier \<open>rid\<close>.\<close>

fun creates :: "ident \<Rightarrow> op \<Rightarrow> bool" where
  "creates rid (CreateRoom newRoomId now hostUserId roomName) = (newRoomId = rid)"
| "creates rid c = False"

subsection \<open>Per-target outcomes of a broadcast\<close>

text \<open>
  \<open>send_each\<close> is the list of outcomes of the sends that the loop of
  \<open>broadcastVoiceMessage\<close> performs, one per target in input order, each either the
  message identifier or the error; \<open>successes\<close> keeps the identifiers.
\<close>

fun send_each ::
  "(nat \<Rightarrow> ident) \<Rightarrow> date \<Rightarrow> ident \<Rightarrow> ident \<Rightarrow> nat list \<Rightarrow> nat \<Rightarrow> nat list \<Rightarrow> state
     \<Rightarrow> (error + ident) list \<times> state" where
  "send_each gen now userId rid data i [] s = ([], s)"
| "send_each gen now userId rid data i (pdaIndex # rest) s =
     (case sendVoiceMessage (gen i) now userId rid data pdaIndex s of
        (res, s') \<Rightarrow>
          (case send_each gen now userId rid data (Suc i) rest s' of
             (outs, s'') \<Rightarrow> (res # outs, s'')))"

fun successes :: "(error + ident) list \<Rightarrow> ident list" where
  "successes [] = []"
| "successes (Inr messageId # outs) = messageId # successes outs"
| "successes (Inl e # outs) = successes outs"

subsection \<open>Views and invariants of the state\<close>

definition members :: "state \<Rightarrow> ident \<rightharpoonup> ident list" where
  "members s = (\<lambda>rid. map_option participants (rooms s rid))"

definition joined :: "state \<Rightarrow> ident \<rightharpoonup> ident list" where
  "joined s = (\<lambda>uid. map_option joinedRooms (users s uid))"

definition active :: "state \<Rightarrow> ident \<rightharpoonup> bool" where
  "active s = (\<lambda>rid. map_option isActive (rooms s rid))"

definition pda_inv :: "state \<Rightarrow> bool" where
  "pda_inv s = (\<forall>k p. storage s k = Some p \<longrightarrow> used p \<le> capacity p)"

definition room_inv :: "state \<Rightarrow> bool" where
  "room_inv s = (\<forall>rid r. rooms s rid = Some r \<longrightarrow>
       length (participants r) \<le> 10 \<and> (\<not> isActive r \<longrightarrow> participants r = []))"

definition listed :: "(ident \<rightharpoonup> ident list) \<Rightarrow> ident \<Rightarrow> ident \<Rightarrow> bool" where
  "listed K a b = (\<exists>xs. K a = Some xs \<and> b \<in> set xs)"

definition all_distinct :: "(ident \<rightharpoonup> ident list) \<Rightarrow> bool" where
  "all_distinct K = (\<forall>a xs. K a = Some xs \<longrightarrow> distinct xs)"

definition consistent :: "(ident \<rightharpoonup> ident list) \<Rightarrow> (ident \<rightharpoonup> ident list) \<Rightarrow> bool" where
  "consistent M J =
     ((\<forall>uid rid. listed M rid uid \<longleftrightarrow> listed J uid rid) \<and> all_distinct M \<and> all_distinct J)"

definition mem_inv :: "state \<Rightarrow> bool" where
  "mem_inv s = consistent (members s) (joined s)"

section \<open>The reallocation client (ReallocationExample)\<close>

text \<open>
  \<open>reallocatePDAToTargetSize\<close> drives the ledger program and the connection, which are
  not part of the client: the ledger is a parameter. Its state has some type \<open>'c\<close>, and
  every call may change it.
  \<open>getReallocationStepsNeeded_rpc\<close> is the effect of the helper call (the client drops
  its result and swallows its errors); \<open>reallocatePdaAccount_rpc\<close> is one submitted
  reallocation, which either succeeds (\<open>None\<close>) or throws an error;
  \<open>getAccountInfo_length\<close> is \<open>getAccountInfo(pdaAddress).data.length\<close>, which gives
  the size or throws (the connection fails, or the account information is \<open>null\<close>).
  \<open>NoReallocNeeded\<close> stands for an error whose message includes that word,
  \<open>OtherRpcError\<close> for any other error.

  Besides the outcome and the final ledger state, the model returns the number of
  reallocations submitted.
\<close>

datatype rpc_error = NoReallocNeeded | OtherRpcError string

record 'c ledger =
  getReallocationStepsNeeded_rpc :: "int \<Rightarrow> 'c \<Rightarrow> 'c"
  reallocatePdaAccount_rpc :: "int \<Rightarrow> 'c \<Rightarrow> rpc_error option \<times> 'c"
  getAccountInfo_length :: "'c \<Rightarrow> (rpc_error + int) \<times> 'c"

definition maxIterations :: "int \<Rightarrow> int" where
  "maxIterations targetSize = \<lceil>(real_of_int targetSize - 10240) / 10240\<rceil>"

text \<open>
  The source computes \<open>maxIterations\<close> in double precision. For an integer target of
  magnitude at most \<open>2^52\<close> the difference \<open>targetSize - 10240\<close> is exact, and its
  quotient by 10240 is below \<open>2^40\<close>, so the rounding error of the division is below
  \<open>2^-14\<close>, less than the distance \<open>1/10240\<close> of a non-integral quotient from the
  nearest integer: \<open>Math.ceil\<close> of the double quotient is the ceiling of the real one.
  Outside that range the two can differ, and the properties below are stated for targets
  inside it.
\<close>

definition exact_double_range :: "int \<Rightarrow> bool" where
  "exact_double_range targetSize = (\<bar>targetSize\<bar> \<le> 2 ^ 52)"

text \<open>
  The \<open>catch\<close> inside the loop: an error whose message includes NoReallocNeeded ends
  the loop, any other error is thrown again. It receives the errors of the reallocation
  and of the size read alike.
\<close>

definition inner_catch :: "rpc_error \<Rightarrow> nat \<Rightarrow> 'c \<Rightarrow> (rpc_error + unit) \<times> nat \<times> 'c" where
  "inner_catch e calls c =
     (case e of
        NoReallocNeeded \<Rightarrow> (Inr (), calls, c)
      | OtherRpcError msg \<Rightarrow> (Inl e, calls, c))"

function realloc_loop ::
  "'c ledger \<Rightarrow> int \<Rightarrow> int \<Rightarrow> int \<Rightarrow> nat \<Rightarrow> 'c \<Rightarrow> (rpc_error + unit) \<times> nat \<times> 'c" where
  "realloc_loop L targetSize maxIter currentIteration calls c =
     (if currentIteration < maxIter then
        (case reallocatePdaAccount_rpc L targetSize c of
           (Some e, c') \<Rightarrow> inner_catch e (Suc calls) c'
         | (None, c') \<Rightarrow>
             (case getAccountInfo_length L c' of
                (Inl e, c'') \<Rightarrow> inner_catch e (Suc calls) c''
              | (Inr currentSize, c'') \<Rightarrow>
                  if currentSize \<ge> targetSize then (Inr (), Suc calls, c'')
                  else realloc_loop L targetSize maxIter (currentIteration + 1) (Suc calls) c''))
      else (Inr (), calls, c))"
  by pat_completeness auto
termination
  by (relation "measure (\<lambda>(L, targetSize, maxIter, currentIteration, calls, c).
        nat (maxIter - currentIteration))") auto

declare realloc_loop.simps [simp del]

text \<open>
  After the loop the source reads the account once more to log its size; an error of
  that read is thrown again by the outer \<open>catch\<close>, whatever its message.
\<close>

definition final_read :: "'c ledger \<Rightarrow> nat \<Rightarrow> 'c \<Rightarrow> (rpc_error + unit) \<times> nat \<times> 'c" where
  "final_read L calls c =
     (case getAccountInfo_length L c of
        (Inl e, c') \<Rightarrow> (Inl e, calls, c')
      | (Inr finalSize, c') \<Rightarrow> (Inr (), calls, c'))"

definition reallocatePDAToTargetSize ::
  "'c ledger \<Rightarrow> int \<Rightarrow> 'c \<Rightarrow> (rpc_error + unit) \<times> nat \<times> 'c" where
  "reallocatePDAToTargetSize L targetSize c =
     (case realloc_loop L targetSize (maxIterations targetSize) 0 0
             (getReallocationStepsNeeded_rpc L targetSize c) of
        (Inl e, calls, c') \<Rightarrow> (Inl e, calls, c')
      | (Inr u, calls, c') \<Rightarrow> final_read L calls c')"

text \<open>
  One iteration of the loop, seen from the ledger state \<open>c\<close> it starts in:
  \<open>below_target\<close> holds when the reallocation succeeds and the size read succeeds with
  a size below the target, so that the loop goes on, in the state \<open>after_iteration\<close>;
  \<open>stops\<close> holds when the iteration ends the loop normally (the size read is at or
  above the target, or an error mentions NoReallocNeeded), in the state \<open>stop_state\<close>.
  \<open>start_state L targetSize j c\<close> is the ledger state in which iteration \<open>j\<close> of a
  run started in \<open>c\<close> begins, when the iterations before it went on.
\<close>

definition after_iteration :: "'c ledger \<Rightarrow> int \<Rightarrow> 'c \<Rightarrow> 'c" where
  "after_iteration L targetSize c =
     snd (getAccountInfo_length L (snd (reallocatePdaAccount_rpc L targetSize c)))"

definition below_target :: "'c ledger \<Rightarrow> int \<Rightarrow> 'c \<Rightarrow> bool" where
  "below_target L targetSize c =
     (case reallocatePdaAccount_rpc L targetSize c of
        (Some e, c') \<Rightarrow> False
      | (None, c') \<Rightarrow>
          (case fst (getAccountInfo_length L c') of
             Inl e \<Rightarrow> False
           | Inr currentSize \<Rightarrow> currentSize < targetSize))"

definition stops :: "'c ledger \<Rightarrow> int \<Rightarrow> 'c \<Rightarrow> bool" where
  "stops L targetSize c =
     (case reallocatePdaAccount_rpc L targetSize c of
        (Some e, c') \<Rightarrow> e = NoReallocNeeded
      | (None, c') \<Rightarrow>
          (case fst (getAccountInfo_length L c') of
             Inl e \<Rightarrow> e = NoReallocNeeded
           | Inr currentSize \<Rightarrow> targetSize \<le> currentSize))"

definition stop_state :: "'c ledger \<Rightarrow> int \<Rightarrow> 'c \<Rightarrow> 'c" where
  "stop_state L targetSize c =
     (case reallocatePdaAccount_rpc L targetSize c of
        (Some e, c') \<Rightarrow> c'
      | (None, c') \<Rightarrow> snd (getAccountInfo_length L c'))"

definition start_state :: "'c ledger \<Rightarrow> int \<Rightarrow> nat \<Rightarrow> 'c \<Rightarrow> 'c" where
  "start_state L targetSize j c =
     (after_iteration L targetSize ^^ j) (getReallocationStepsNeeded_rpc L targetSize c)"

section \<open>Concrete runs\<close>

text \<open>
  Alice creates the room \<open>r1\<close> and sends 20000 bytes to PDA 0.
\<close>

definition alice_room :: "op list" where
  "alice_room = [CreateUser ''alice'' ''Alice'', CreateRoom ''r1'' 1 ''alice'' ''Standup'']"

definition after_first_send :: state where
  "after_first_send =
     run (alice_room @ [SendVoiceMessage ''m1'' 2 ''alice'' ''r1'' (replicate 20000 0) 0]) init"

text \<open>
  Then she sends 15000 bytes to PDA 0, which has 10720 bytes left, and after that
  5000 bytes to PDA 0.
\<close>

definition full_send :: "(error + ident) \<times> state" where
  "full_send =
     sendVoiceMessage ''m2'' 3 ''alice'' ''r1'' (replicate 15000 0) 0 after_first_send"

definition third_send :: "(error + ident) \<times> state" where
  "third_send =
     sendVoiceMessage ''m3'' 4 ''alice'' ''r1'' (replicate 5000 0) 0 (snd full_send)"

text \<open>Alice fills PDA 1 up to its capacity: 29696 + 1024 = 30720 bytes.\<close>

definition pda1_full :: state where
  "pda1_full =
     run (alice_room @
          [SendVoiceMessage ''m1'' 2 ''alice'' ''r1'' (replicate 29696 0) 1,
           SendVoiceMessage ''m2'' 3 ''alice'' ''r1'' (replicate 1024 0) 1]) init"

definition gen3 :: "nat \<Rightarrow> ident" where
  "gen3 i = (if i = 0 then ''b0'' else if i = 1 then ''b1'' else ''b2'')"

text \<open>Ten users in one room: \<open>u0\<close> creates it and \<open>u1\<close> to \<open>u9\<close> join.\<close>

definition ten_in_room :: state where
  "ten_in_room =
     run [CreateUser ''u0'' ''U0'', CreateUser ''u1'' ''U1'', CreateUser ''u2'' ''U2'',
          CreateUser ''u3'' ''U3'', CreateUser ''u4'' ''U4'', CreateUser ''u5'' ''U5'',
          CreateUser ''u6'' ''U6'', CreateUser ''u7'' ''U7'', CreateUser ''u8'' ''U8'',
          CreateUser ''u9'' ''U9'', CreateUser ''u10'' ''U10'',
          CreateRoom ''big'' 1 ''u0'' ''Big'',
          JoinRoom 2 ''u1'' ''big'', JoinRoom 3 ''u2'' ''big'', JoinRoom 4 ''u3'' ''big'',
          JoinRoom 5 ''u4'' ''big'', JoinRoom 6 ''u5'' ''big'', JoinRoom 7 ''u6'' ''big'',
          JoinRoom 8 ''u7'' ''big'', JoinRoom 9 ''u8'' ''big'', JoinRoom 10 ''u9'' ''big'']
       init"

text \<open>Alice creates the room, Bob registers, Alice leaves: the room is empty.\<close>

definition room_left :: state where
  "room_left =
     run (alice_room @ [CreateUser ''bob'' ''Bob'', LeaveRoom 2 ''alice'' ''r1'']) init"

definition with_bob :: state where
  "with_bob = run (alice_room @ [CreateUser ''bob'' ''Bob'']) init"

definition session :: "op list" where
  "session = alice_room @
     [CreateUser ''bob'' ''Bob'', JoinRoom 2 ''bob'' ''r1'',
      SendVoiceMessage ''m1'' 3 ''bob'' ''r1'' (replicate 8000 0) 1,
      LeaveRoom 4 ''alice'' ''r1'']"

text \<open>
  Ledgers whose state is the size of the account, read without failure. \<open>half_steps\<close>
  grows it by 5120 bytes per reallocation, \<open>small_steps\<close> by 2048 bytes, \<open>full_steps\<close>
  by 10240 bytes, never beyond the target; each reports \<open>NoReallocNeeded\<close> once the
  target is reached. The state of \<open>unreadable\<close> is the size and the number of size
  reads that still succeed; every reallocation adds 5120 bytes.
\<close>

definition growing :: "int \<Rightarrow> int ledger" where
  "growing inc =
     \<lparr>getReallocationStepsNeeded_rpc = (\<lambda>t c. c),
      reallocatePdaAccount_rpc =
        (\<lambda>t c. if c \<ge> t then (Some NoReallocNeeded, c) else (None, min t (c + inc))),
      getAccountInfo_length = (\<lambda>c. (Inr c, c))\<rparr>"

definition half_steps :: "int ledger" where
  "half_steps = growing 5120"

definition small_steps :: "int ledger" where
  "small_steps = growing 2048"

definition full_steps :: "int ledger" where
  "full_steps = growing 10240"

definition unreadable :: "(int \<times> nat) ledger" where
  "unreadable =
     \<lparr>getReallocationStepsNeeded_rpc = (\<lambda>t c. c),
      reallocatePdaAccount_rpc = (\<lambda>t (size, reads). (None, (size + 5120, reads))),
      getAccountInfo_length =
        (\<lambda>(size, reads).
           if reads = 0 then (Inl (OtherRpcError ''failed to get info about account''), (size, reads))
           else (Inr size, (size, reads - 1)))\<rparr>"

section \<open>Properties of the simulation\<close>

lemmas ops_defs = init_def createUser_def createRoom_def joinRoom_def sendVoiceMessage_def
  broadcastVoiceMessage_def leaveRoom_def

subsection \<open>What a send and a broadcast leave alone\<close>

lemma send_members: "members (snd (sendVoiceMessage m now uid rid d k s)) = members s"
  by (auto simp: members_def sendVoiceMessage_def Let_def fun_eq_iff split: option.splits)

lemma send_joined: "joined (snd (sendVoiceMessage m now uid rid d k s)) = joined s"
  by (auto simp: joined_def sendVoiceMessage_def Let_def fun_eq_iff split: option.splits)

lemma send_active: "active (snd (sendVoiceMessage m now uid rid d k s)) = active s"
  by (auto simp: active_def sendVoiceMessage_def Let_def fun_eq_iff split: option.splits)

lemma snd_broadcast_loop_Cons:
  "snd (broadcast_loop gen now uid rid d i (t # ts) s) =
     snd (broadcast_loop gen now uid rid d (Suc i) ts
            (snd (sendVoiceMessage (gen i) now uid rid d t s)))"
  by (simp split: prod.splits sum.splits)

lemma loop_preserves:
  assumes "\<And>m k s. P s \<Longrightarrow> P (snd (sendVoiceMessage m now uid rid d k s))"
  shows "P s \<Longrightarrow> P (snd (broadcast_loop gen now uid rid d i ts s))"
proof (induction ts arbitrary: i s)
  case Nil
  then show ?case by simp
next
  case (Cons t ts)
  from Cons.prems have "P (snd (sendVoiceMessage (gen i) now uid rid d t s))"
    by (rule assms)
  then show ?case
    unfolding snd_broadcast_loop_Cons by (rule Cons.IH)
qed

lemma snd_broadcastVoiceMessage:
  "snd (broadcastVoiceMessage gen now uid rid d ts s) =
     (if rooms s rid \<noteq> None \<and> users s uid \<noteq> None \<and> length ts \<le> 10
      then snd (broadcast_loop gen now uid rid d 0 ts s) else s)"
  by (auto simp: broadcastVoiceMessage_def split: option.splits prod.splits)

lemma broadcast_preserves:
  assumes "\<And>m k s. P s \<Longrightarrow> P (snd (sendVoiceMessage m now uid rid d k s))"
  shows "P s \<Longrightarrow> P (snd (broadcastVoiceMessage gen now uid rid d ts s))"
  using loop_preserves [of P now uid rid d s gen 0 ts, OF assms]
  by (simp add: snd_broadcastVoiceMessage)

subsection \<open>Storage: used bytes stay within the capacity\<close>

lemma send_pda_inv: "pda_inv s \<Longrightarrow> pda_inv (snd (sendVoiceMessage m now uid rid d k s))"
  by (auto simp: pda_inv_def sendVoiceMessage_def Let_def split: option.splits if_splits)

lemma step_pda_inv: "pda_inv s \<Longrightarrow> pda_inv (step c s)"
proof (cases c)
  case (SendVoiceMessage m now uid rid d k)
  then show "pda_inv s \<Longrightarrow> pda_inv (step c s)" by (simp add: send_pda_inv)
next
  case (BroadcastVoiceMessage gen now uid rid d ts)
  then show "pda_inv s \<Longrightarrow> pda_inv (step c s)"
    using broadcast_preserves [of pda_inv now uid rid d s gen ts] by (simp add: send_pda_inv)
qed (auto simp: pda_inv_def createUser_def createRoom_def joinRoom_def leaveRoom_def Let_def
       split: option.splits)

lemma run_pda_inv: "pda_inv s \<Longrightarrow> pda_inv (run cs s)"
  by (induction cs arbitrary: s) (simp_all add: step_pda_inv)

lemma init_pda_inv: "pda_inv init"
  by (simp add: pda_inv_def init_def)

text \<open>
  C2. After any sequence of calls from the empty state (sends and broadcasts, users and
  rooms created, joined and left, whether the calls return or throw), every entry of
  the storage map has used at most its capacity.
\<close>

theorem storage_used_le_capacity:
  "storage (run cs init) k = Some p \<Longrightarrow> used p \<le> capacity p"
  using run_pda_inv [OF init_pda_inv, of cs] by (simp add: pda_inv_def)

theorem storage_used_le_capacity_witness:
  "storage after_first_send 0 =
     Some \<lparr>pda_index = 0, capacity = 30720, used = 20000, pda_messages = [''m1'']\<rparr> \<and>
   used \<lparr>pda_index = 0, capacity = 30720, used = 20000, pda_messages = [''m1'']\<rparr>
     \<le> capacity \<lparr>pda_index = 0, capacity = 30720, used = 20000, pda_messages = [''m1'']\<rparr>"
proof -
  have h: "storage (run (alice_room @
             [SendVoiceMessage ''m1'' 2 ''alice'' ''r1'' (replicate 20000 0) 0]) init) 0 =
     Some \<lparr>pda_index = 0, capacity = 30720, used = 20000, pda_messages = [''m1'']\<rparr>"
    by (simp add: alice_room_def ops_defs)
  from storage_used_le_capacity [OF h] h show ?thesis
    by (simp add: after_first_send_def)
qed

subsection \<open>A send that finds the PDA full\<close>

text \<open>
  C1. The claim: a send that fails with SlotFull leaves the whole state as it was. The
  source stores the message and bumps the counters before it checks the capacity: with
  20000 of 30720 bytes of PDA 0 used, a send of 15000 bytes throws "Storage PDA 0 full",
  and afterwards the room counts two messages instead of one, the user has two sent
  messages instead of one, the last activity is the time of the failed call, and the
  message store holds the rejected message under sequence number 2. The used counter
  of the PDA is unchanged.
\<close>

theorem sendVoiceMessage_SlotFull_keeps_mutations:
  "fst full_send = Inl (SlotFull 0) \<and>
   map_option messageCount (rooms after_first_send ''r1'') = Some 1 \<and>
   map_option messageCount (rooms (snd full_send) ''r1'') = Some 2 \<and>
   map_option messagesSent (users after_first_send ''alice'') = Some 1 \<and>
   map_option messagesSent (users (snd full_send) ''alice'') = Some 2 \<and>
   map_option lastActivity (rooms after_first_send ''r1'') = Some 2 \<and>
   map_option lastActivity (rooms (snd full_send) ''r1'') = Some 3 \<and>
   messages after_first_send ''m2'' = None \<and>
   map_option sequenceNumber (messages (snd full_send) ''m2'') = Some 2 \<and>
   map_option used (storage after_first_send 0) = Some 20000 \<and>
   map_option used (storage (snd full_send) 0) = Some 20000"
  by (simp add: full_send_def after_first_send_def alice_room_def ops_defs)

text \<open>
  C3. The claim: the messages that \<open>sendVoiceMessage\<close> creates successfully for a room
  carry the sequence numbers 1, 2, 3, ... without gaps, also when some sends fail with
  SlotFull. In the run above the first send returns \<open>m1\<close>, the second throws
  "Storage PDA 0 full", the third returns \<open>m3\<close>; the two messages sent carry the
  sequence numbers 1 and 3.
\<close>

theorem sequence_gap_after_SlotFull:
  "sendVoiceMessage ''m1'' 2 ''alice'' ''r1'' (replicate 20000 0) 0 (run alice_room init) =
     (Inr ''m1'', after_first_send) \<and>
   fst full_send = Inl (SlotFull 0) \<and>
   fst third_send = Inr ''m3'' \<and>
   map_option sequenceNumber (messages (snd third_send) ''m1'') = Some 1 \<and>
   map_option sequenceNumber (messages (snd third_send) ''m3'') = Some 3"
  by (simp add: third_send_def full_send_def after_first_send_def alice_room_def ops_defs)

subsection \<open>Broadcast\<close>

lemma broadcast_loop_send_each:
  "broadcast_loop gen now uid rid d i ts s =
     (successes (fst (send_each gen now uid rid d i ts s)),
      snd (send_each gen now uid rid d i ts s))"
proof (induction ts arbitrary: i s)
  case Nil
  show ?case by simp
next
  case (Cons t ts)
  obtain res s' where send: "sendVoiceMessage (gen i) now uid rid d t s = (res, s')"
    by (cases "sendVoiceMessage (gen i) now uid rid d t s")
  show ?case
    using Cons.IH [of "Suc i" s'] send
    by (cases res) (simp_all split: prod.splits)
qed

lemma length_send_each:
  "length (fst (send_each gen now uid rid d i ts s)) = length ts"
proof (induction ts arbitrary: i s)
  case Nil
  show ?case by simp
next
  case (Cons t ts)
  obtain res s' where send: "sendVoiceMessage (gen i) now uid rid d t s = (res, s')"
    by (cases "sendVoiceMessage (gen i) now uid rid d t s")
  show ?case
    using Cons.IH [of "Suc i" s'] send by (auto split: prod.splits)
qed

text \<open>
  C4, as the claim states it, fails: with PDA 1 full, a broadcast to the targets 0, 1, 2
  returns two message identifiers, not three outcomes. The failure for PDA 1 is logged
  and left out of the result.
\<close>

theorem broadcast_drops_failures:
  "fst (broadcastVoiceMessage gen3 4 ''alice'' ''r1'' (replicate 15000 0) [0, 1, 2] pda1_full)
     = Inr [''b0'', ''b2'']"
  by (simp add: pda1_full_def alice_room_def ops_defs gen3_def)

text \<open>
  C4, amended. For a known room and user and at most 10 targets, the sends have one
  outcome per target, in input order, and the broadcast returns the identifiers of
  the successful ones in that order.
\<close>

theorem broadcast_returns_successes:
  "rooms s rid \<noteq> None \<Longrightarrow> users s uid \<noteq> None \<Longrightarrow> length ts \<le> 10 \<Longrightarrow>
   broadcastVoiceMessage gen now uid rid d ts s =
     (Inr (successes (fst (send_each gen now uid rid d 0 ts s))),
      snd (send_each gen now uid rid d 0 ts s)) \<and>
   length (fst (send_each gen now uid rid d 0 ts s)) = length ts"
  by (auto simp: broadcastVoiceMessage_def broadcast_loop_send_each length_send_each)

text \<open>
  The run of the claim: PDA 1 is full. The outcomes are success, "Storage PDA 1 full",
  success; PDAs 0 and 2 go from unused to 15000 bytes and PDA 1 stays at 30720.
\<close>

theorem broadcast_returns_successes_witness:
  "broadcastVoiceMessage gen3 4 ''alice'' ''r1'' (replicate 15000 0) [0, 1, 2] pda1_full =
     (Inr (successes [Inr ''b0'', Inl (SlotFull 1), Inr ''b2'']),
      snd (send_each gen3 4 ''alice'' ''r1'' (replicate 15000 0) 0 [0, 1, 2] pda1_full)) \<and>
   map_option used (storage pda1_full 0) = None \<and>
   map_option used (storage pda1_full 1) = Some 30720 \<and>
   map_option used (storage pda1_full 2) = None \<and>
   map_option used (storage (snd (broadcastVoiceMessage gen3 4 ''alice'' ''r1''
       (replicate 15000 0) [0, 1, 2] pda1_full)) 0) = Some 15000 \<and>
   map_option used (storage (snd (broadcastVoiceMessage gen3 4 ''alice'' ''r1''
       (replicate 15000 0) [0, 1, 2] pda1_full)) 1) = Some 30720 \<and>
   map_option used (storage (snd (broadcastVoiceMessage gen3 4 ''alice'' ''r1''
       (replicate 15000 0) [0, 1, 2] pda1_full)) 2) = Some 15000"
proof -
  have r: "rooms pda1_full ''r1'' \<noteq> None" and u: "users pda1_full ''alice'' \<noteq> None"
    by (simp_all add: pda1_full_def alice_room_def ops_defs)
  have l: "length [0::nat, 1, 2] \<le> 10" by simp
  have outs: "fst (send_each gen3 4 ''alice'' ''r1'' (replicate 15000 0) 0 [0, 1, 2] pda1_full) =
      [Inr ''b0'', Inl (SlotFull 1), Inr ''b2'']"
    by (simp add: pda1_full_def alice_room_def ops_defs gen3_def)
  have usage: "map_option used (storage pda1_full 0) = None \<and>
   map_option used (storage pda1_full 1) = Some 30720 \<and>
   map_option used (storage pda1_full 2) = None \<and>
   map_option used (storage (snd (broadcastVoiceMessage gen3 4 ''alice'' ''r1''
       (replicate 15000 0) [0, 1, 2] pda1_full)) 0) = Some 15000 \<and>
   map_option used (storage (snd (broadcastVoiceMessage gen3 4 ''alice'' ''r1''
       (replicate 15000 0) [0, 1, 2] pda1_full)) 1) = Some 30720 \<and>
   map_option used (storage (snd (broadcastVoiceMessage gen3 4 ''alice'' ''r1''
       (replicate 15000 0) [0, 1, 2] pda1_full)) 2) = Some 15000"
    by (simp add: pda1_full_def alice_room_def ops_defs gen3_def)
  from broadcast_returns_successes [OF r u l, of gen3 4 "replicate 15000 0"] outs usage
  show ?thesis by simp
qed

subsection \<open>Rooms: at most ten participants, none in an inactive room\<close>

lemma room_inv_views:
  "room_inv s = (\<forall>rid ps a. members s rid = Some ps \<longrightarrow> active s rid = Some a \<longrightarrow>
       length ps \<le> 10 \<and> (\<not> a \<longrightarrow> ps = []))"
  by (auto simp: room_inv_def members_def active_def)

lemma send_room_inv: "room_inv s \<Longrightarrow> room_inv (snd (sendVoiceMessage m now uid rid d k s))"
  by (simp add: room_inv_views send_members send_active)

lemma step_room_inv: "room_inv s \<Longrightarrow> room_inv (step c s)"
proof (cases c)
  case (SendVoiceMessage m now uid rid d k)
  then show "room_inv s \<Longrightarrow> room_inv (step c s)" by (simp add: send_room_inv)
next
  case (BroadcastVoiceMessage gen now uid rid d ts)
  then show "room_inv s \<Longrightarrow> room_inv (step c s)"
    using broadcast_preserves [of room_inv now uid rid d s gen ts] by (simp add: send_room_inv)
next
  case (CreateUser uid name)
  then show "room_inv s \<Longrightarrow> room_inv (step c s)"
    by (simp add: room_inv_def createUser_def)
next
  case (CreateRoom rid now h name)
  then show "room_inv s \<Longrightarrow> room_inv (step c s)"
    by (auto simp: room_inv_def createRoom_def Let_def split: option.splits if_splits)
next
  case (JoinRoom now uid rid)
  then show "room_inv s \<Longrightarrow> room_inv (step c s)"
    by (auto simp: room_inv_def joinRoom_def Let_def split: option.splits if_splits)
next
  case (LeaveRoom now uid rid)
  show "room_inv s \<Longrightarrow> room_inv (step c s)"
  proof -
    assume inv: "room_inv s"
    have len: "length (remove1 uid ps) \<le> 10" if "length ps \<le> 10" for ps :: "ident list"
      using that by (cases "uid \<in> set ps") (simp_all add: length_remove1)
    show "room_inv (step c s)"
      unfolding room_inv_def
    proof (intro allI impI)
      fix rid' r'
      assume r': "rooms (step c s) rid' = Some r'"
      show "length (participants r') \<le> 10 \<and> (\<not> isActive r' \<longrightarrow> participants r' = [])"
      proof (cases "rooms s rid' = Some r'")
        case True
        with inv show ?thesis by (simp add: room_inv_def)
      next
        case False
        with r' LeaveRoom obtain r u where
          "rid' = rid" "rooms s rid = Some r" "users s uid = Some u"
          "participants r' = remove1 uid (participants r)"
          "isActive r' = (if remove1 uid (participants r) = [] then False else isActive r)"
          by (auto simp: leaveRoom_def Let_def split: option.splits if_splits)
        moreover from this inv have "length (participants r) \<le> 10"
          and "\<not> isActive r \<longrightarrow> participants r = []"
          by (simp_all add: room_inv_def)
        ultimately show ?thesis using len by auto
      qed
    qed
  qed
qed

lemma run_room_inv: "room_inv s \<Longrightarrow> room_inv (run cs s)"
  by (induction cs arbitrary: s) (simp_all add: step_room_inv)

lemma init_room_inv: "room_inv init"
  by (simp add: room_inv_def init_def)

text \<open>
  C5. After any sequence of calls from the empty state, a room has at most ten
  participants, and the eleventh join, a \<open>joinRoom\<close> on a room with ten participants by
  a user who is not one of them, throws "Room is full" and leaves the whole state
  unchanged, the participant list of the room and the room list of the user included.
\<close>

theorem joinRoom_full:
  "rooms (run cs init) rid = Some r \<Longrightarrow>
   length (participants r) \<le> 10 \<and>
   (length (participants r) = 10 \<and> uid \<notin> set (participants r) \<longrightarrow>
      joinRoom now uid rid (run cs init) = (Inl RoomFull, run cs init))"
  using run_room_inv [OF init_room_inv, of cs]
  by (auto simp: room_inv_def joinRoom_def)

theorem joinRoom_full_witness:
  "joinRoom 11 ''u10'' ''big'' ten_in_room = (Inl RoomFull, ten_in_room)"
proof -
  let ?r = "\<lparr>room_id = ''big'', room_name = ''Big'', host = ''u0'',
     participants = [''u0'', ''u1'', ''u2'', ''u3'', ''u4'', ''u5'', ''u6'', ''u7'', ''u8'', ''u9''],
     isActive = True, createdAt = 1, lastActivity = 10, messageCount = 0\<rparr>"
  have h: "rooms ten_in_room ''big'' = Some ?r"
    by (simp add: ten_in_room_def ops_defs)
  have "length (participants ?r) = 10 \<and> ''u10'' \<notin> set (participants ?r)"
    by simp
  with joinRoom_full [OF h [unfolded ten_in_room_def], of "''u10''" 11]
  show ?thesis by (simp add: ten_in_room_def)
qed

text \<open>
  C6, as the claim states it, fails: \<open>sendVoiceMessage\<close> never looks at the active flag.
  After the only participant has left, the room is inactive and a send by that user
  throws "User not in room".
\<close>

theorem send_to_inactive_room_NotMember:
  "map_option isActive (rooms room_left ''r1'') = Some False \<and>
   sendVoiceMessage ''m1'' 3 ''alice'' ''r1'' (replicate 100 0) 0 room_left =
     (Inl NotMember, room_left) \<and>
   Inl NotMember \<noteq> (Inl InactiveRoom :: error + ident)"
  by (simp add: room_left_def alice_room_def ops_defs)

text \<open>
  C6, amended. After any sequence of calls from the empty state an inactive room has no
  participants, so a send that names it throws "Room or user not found" when the user
  is unknown and "User not in room" otherwise, and leaves the state unchanged.
\<close>

theorem send_to_inactive_room:
  "rooms (run cs init) rid = Some r \<Longrightarrow> \<not> isActive r \<Longrightarrow>
   sendVoiceMessage m now uid rid d k (run cs init) =
     (Inl (if users (run cs init) uid = None then NotFound else NotMember), run cs init)"
  using run_room_inv [OF init_room_inv, of cs]
  by (auto simp: room_inv_def sendVoiceMessage_def split: option.splits)

theorem send_to_inactive_room_witness:
  "sendVoiceMessage ''m1'' 3 ''bob'' ''r1'' (replicate 100 0) 0 room_left =
     (Inl NotMember, room_left) \<and>
   sendVoiceMessage ''m1'' 3 ''carol'' ''r1'' (replicate 100 0) 0 room_left =
     (Inl NotFound, room_left)"
proof -
  let ?r = "\<lparr>room_id = ''r1'', room_name = ''Standup'', host = ''alice'',
     participants = [], isActive = False, createdAt = 1, lastActivity = 2,
     messageCount = 0\<rparr>"
  have h: "rooms room_left ''r1'' = Some ?r"
    by (simp add: room_left_def alice_room_def ops_defs)
  have a: "\<not> isActive ?r" by simp
  have u: "users room_left ''bob'' \<noteq> None" "users room_left ''carol'' = None"
    by (simp_all add: room_left_def alice_room_def ops_defs)
  from send_to_inactive_room [OF h [unfolded room_left_def] a, of "''m1''" 3 "''bob''" "replicate 100 0" 0]
       send_to_inactive_room [OF h [unfolded room_left_def] a, of "''m1''" 3 "''carol''" "replicate 100 0" 0]
       u
  show ?thesis by (simp add: room_left_def)
qed

subsection \<open>An emptied room stays closed\<close>

lemma step_inactive:
  "active s rid = Some False \<Longrightarrow> \<not> creates rid c \<Longrightarrow> active (step c s) rid = Some False"
proof (cases c)
  case (SendVoiceMessage m now uid rid' d k)
  then show "active s rid = Some False \<Longrightarrow> active (step c s) rid = Some False"
    by (simp add: send_active)
next
  case (BroadcastVoiceMessage gen now uid rid' d ts)
  then show "active s rid = Some False \<Longrightarrow> active (step c s) rid = Some False"
    using broadcast_preserves [of "\<lambda>s. active s rid = Some False" now uid rid' d s gen ts]
    by (simp add: send_active)
next
  case (CreateUser uid name)
  then show "active s rid = Some False \<Longrightarrow> active (step c s) rid = Some False"
    by (simp add: active_def createUser_def)
next
  case (CreateRoom rid' now h name)
  then show "active s rid = Some False \<Longrightarrow> \<not> creates rid c \<Longrightarrow>
      active (step c s) rid = Some False"
    by (auto simp: active_def createRoom_def Let_def split: option.splits)
next
  case (JoinRoom now uid rid')
  then show "active s rid = Some False \<Longrightarrow> active (step c s) rid = Some False"
    by (auto simp: active_def joinRoom_def Let_def split: option.splits if_splits)
next
  case (LeaveRoom now uid rid')
  then show "active s rid = Some False \<Longrightarrow> active (step c s) rid = Some False"
    by (auto simp: active_def leaveRoom_def Let_def split: option.splits if_splits)
qed

lemma run_inactive:
  "active s rid = Some False \<Longrightarrow> \<forall>c\<in>set cs. \<not> creates rid c \<Longrightarrow>
   active (run cs s) rid = Some False"
  by (induction cs arbitrary: s) (simp_all add: step_inactive)

lemma joinRoom_inactive:
  "active s rid = Some False \<Longrightarrow> joinRoom now uid rid s = (Inl InactiveRoom, s)"
  by (auto simp: active_def joinRoom_def split: option.splits)

lemma leaveRoom_last:
  "rooms s rid = Some r \<Longrightarrow> users s uid = Some u \<Longrightarrow> participants r = [uid] \<Longrightarrow>
   fst (leaveRoom now uid rid s) = Inr () \<and>
   active (snd (leaveRoom now uid rid s)) rid = Some False"
  by (simp add: leaveRoom_def active_def Let_def)

text \<open>
  C9. When the only participant of a room leaves, the call returns, the room is marked
  inactive, and from then on, after any further calls that do not generate the room's
  identifier again, every \<open>joinRoom\<close> on the room throws "Room is not active" and
  leaves the state unchanged.
\<close>

theorem leaveRoom_last_deactivates:
  "rooms s rid = Some r \<Longrightarrow> users s uid = Some u \<Longrightarrow> participants r = [uid] \<Longrightarrow>
   fst (leaveRoom now uid rid s) = Inr () \<and>
   map_option isActive (rooms (snd (leaveRoom now uid rid s)) rid) = Some False \<and>
   (\<forall>cs now' uid'. (\<forall>c\<in>set cs. \<not> creates rid c) \<longrightarrow>
      joinRoom now' uid' rid (run cs (snd (leaveRoom now uid rid s))) =
        (Inl InactiveRoom, run cs (snd (leaveRoom now uid rid s))))"
  using leaveRoom_last [of s rid r uid u now]
  by (auto simp: joinRoom_inactive run_inactive) (simp add: active_def)

theorem leaveRoom_last_deactivates_witness:
  "fst (leaveRoom 2 ''alice'' ''r1'' with_bob) = Inr () \<and>
   map_option isActive (rooms (snd (leaveRoom 2 ''alice'' ''r1'' with_bob)) ''r1'') = Some False \<and>
   joinRoom 4 ''bob'' ''r1''
     (run [CreateRoom ''r2'' 3 ''bob'' ''Other''] (snd (leaveRoom 2 ''alice'' ''r1'' with_bob))) =
     (Inl InactiveRoom,
      run [CreateRoom ''r2'' 3 ''bob'' ''Other''] (snd (leaveRoom 2 ''alice'' ''r1'' with_bob)))"
proof -
  let ?r = "\<lparr>room_id = ''r1'', room_name = ''Standup'', host = ''alice'',
     participants = [''alice''], isActive = True, createdAt = 1, lastActivity = 1,
     messageCount = 0\<rparr>"
  let ?u = "\<lparr>user_id = ''alice'', user_name = ''Alice'', joinedRooms = [''r1''],
     messagesSent = 0\<rparr>"
  have r: "rooms with_bob ''r1'' = Some ?r" and u: "users with_bob ''alice'' = Some ?u"
    by (simp_all add: with_bob_def alice_room_def ops_defs)
  have p: "participants ?r = [''alice'']" by simp
  have c: "\<forall>c\<in>set [CreateRoom ''r2'' 3 ''bob'' ''Other'']. \<not> creates ''r1'' c" by simp
  from leaveRoom_last_deactivates [OF r u p, of 2] c show ?thesis by blast
qed

subsection \<open>Membership is recorded on both sides\<close>

lemma listed_append:
  "K a = Some xs \<Longrightarrow> listed (K(a \<mapsto> xs @ [b])) a' b' \<longleftrightarrow> listed K a' b' \<or> (a' = a \<and> b' = b)"
  by (auto simp: listed_def)

lemma listed_remove1:
  "K a = Some xs \<Longrightarrow> distinct xs \<Longrightarrow>
   listed (K(a \<mapsto> remove1 b xs)) a' b' \<longleftrightarrow> listed K a' b' \<and> \<not> (a' = a \<and> b' = b)"
  by (auto simp: listed_def)

lemma listed_new:
  "K a = None \<Longrightarrow> listed (K(a \<mapsto> ys)) a' b' \<longleftrightarrow> listed K a' b' \<or> (a' = a \<and> b' \<in> set ys)"
  by (auto simp: listed_def)

lemma all_distinct_upd: "all_distinct K \<Longrightarrow> distinct ys \<Longrightarrow> all_distinct (K(a \<mapsto> ys))"
  by (simp add: all_distinct_def)

lemma all_distinctD: "all_distinct K \<Longrightarrow> K a = Some xs \<Longrightarrow> distinct xs"
  by (simp add: all_distinct_def)

lemma consistent_new_user:
  "consistent M J \<Longrightarrow> J uid = None \<Longrightarrow> consistent M (J(uid \<mapsto> []))"
  by (simp add: consistent_def listed_new all_distinct_upd)

lemma consistent_new_room:
  assumes "consistent M J" "M rid = None" "J h = Some js"
  shows "consistent (M(rid \<mapsto> [h])) (J(h \<mapsto> js @ [rid]))"
proof -
  have "\<not> listed M rid h" using assms(2) by (simp add: listed_def)
  with assms(1) have "\<not> listed J h rid" by (simp add: consistent_def)
  with assms(3) have "rid \<notin> set js" by (simp add: listed_def)
  moreover have "distinct js" using assms(1,3) by (auto simp: consistent_def dest: all_distinctD)
  ultimately have "distinct (js @ [rid])" by simp
  with assms show ?thesis
    by (auto simp: consistent_def listed_new listed_append all_distinct_upd)
qed

lemma consistent_join:
  assumes "consistent M J" "M rid = Some ps" "J uid = Some js" "uid \<notin> set ps"
  shows "consistent (M(rid \<mapsto> ps @ [uid])) (J(uid \<mapsto> js @ [rid]))"
proof -
  have "\<not> listed M rid uid" using assms(2,4) by (simp add: listed_def)
  with assms(1) have "\<not> listed J uid rid" by (simp add: consistent_def)
  with assms(3) have "rid \<notin> set js" by (simp add: listed_def)
  moreover have "distinct js" "distinct ps"
    using assms(1-3) by (auto simp: consistent_def dest: all_distinctD)
  ultimately have "distinct (js @ [rid])" "distinct (ps @ [uid])" using assms(4) by simp_all
  with assms show ?thesis
    by (auto simp: consistent_def listed_append all_distinct_upd)
qed

lemma consistent_leave:
  assumes "consistent M J" "M rid = Some ps" "J uid = Some js"
  shows "consistent (M(rid \<mapsto> remove1 uid ps)) (J(uid \<mapsto> remove1 rid js))"
proof -
  have d: "distinct js" "distinct ps"
    using assms by (auto simp: consistent_def dest: all_distinctD)
  then have "distinct (remove1 rid js)" "distinct (remove1 uid ps)" by simp_all
  with assms d show ?thesis
    by (auto simp: consistent_def listed_remove1 all_distinct_upd)
qed

lemma createUser_views:
  "members (snd (createUser uid name s)) = members s"
  "joined (snd (createUser uid name s)) = (joined s)(uid \<mapsto> [])"
  by (auto simp: members_def joined_def createUser_def fun_eq_iff)

lemma createRoom_views:
  assumes "users s h = Some u"
  shows "members (snd (createRoom rid now h name s)) = (members s)(rid \<mapsto> [h])"
    and "joined (snd (createRoom rid now h name s)) = (joined s)(h \<mapsto> joinedRooms u @ [rid])"
  using assms by (auto simp: members_def joined_def createRoom_def Let_def fun_eq_iff)

lemma createRoom_returns:
  "returns (CreateRoom rid now h name) s \<Longrightarrow> \<exists>u. users s h = Some u"
  by (auto simp: createRoom_def Let_def split: option.splits)

lemma joinRoom_views:
  assumes "returns (JoinRoom now uid rid) s"
  shows "\<exists>r u. rooms s rid = Some r \<and> users s uid = Some u \<and> uid \<notin> set (participants r) \<and>
     members (snd (joinRoom now uid rid s)) = (members s)(rid \<mapsto> participants r @ [uid]) \<and>
     joined (snd (joinRoom now uid rid s)) = (joined s)(uid \<mapsto> joinedRooms u @ [rid])"
  using assms
  by (auto simp: members_def joined_def joinRoom_def Let_def fun_eq_iff
           split: option.splits if_splits)

lemma leaveRoom_views:
  assumes "returns (LeaveRoom now uid rid) s"
  shows "\<exists>r u. rooms s rid = Some r \<and> users s uid = Some u \<and>
     members (snd (leaveRoom now uid rid s)) =
       (members s)(rid \<mapsto> remove1 uid (participants r)) \<and>
     joined (snd (leaveRoom now uid rid s)) =
       (joined s)(uid \<mapsto> remove1 rid (joinedRooms u))"
  using assms
  by (auto simp: members_def joined_def leaveRoom_def Let_def fun_eq_iff
           split: option.splits if_splits)

lemma send_mem_inv: "mem_inv s \<Longrightarrow> mem_inv (snd (sendVoiceMessage m now uid rid d k s))"
  by (simp add: mem_inv_def send_members send_joined)

lemma step_mem_inv:
  assumes "mem_inv s" "returns c s" "fresh c s"
  shows "mem_inv (step c s)"
proof (cases c)
  case (CreateUser uid name)
  with assms(3) have "joined s uid = None" by (simp add: joined_def)
  with assms(1) CreateUser show ?thesis
    by (simp add: mem_inv_def createUser_views consistent_new_user)
next
  case (CreateRoom rid now h name)
  with assms(2) obtain u where u: "users s h = Some u"
    using createRoom_returns by blast
  from CreateRoom assms(3) have "members s rid = None" by (simp add: members_def)
  moreover from u have "joined s h = Some (joinedRooms u)" by (simp add: joined_def)
  ultimately show ?thesis
    using assms(1) CreateRoom createRoom_views [OF u]
    by (simp add: mem_inv_def consistent_new_room)
next
  case (JoinRoom now uid rid)
  with assms(2) joinRoom_views [of now uid rid s] obtain r u where
    "rooms s rid = Some r" "users s uid = Some u" "uid \<notin> set (participants r)"
    "members (step c s) = (members s)(rid \<mapsto> participants r @ [uid])"
    "joined (step c s) = (joined s)(uid \<mapsto> joinedRooms u @ [rid])"
    by auto
  moreover from this have "members s rid = Some (participants r)"
    "joined s uid = Some (joinedRooms u)" by (simp_all add: members_def joined_def)
  ultimately show ?thesis
    using assms(1) by (simp add: mem_inv_def consistent_join)
next
  case (LeaveRoom now uid rid)
  with assms(2) leaveRoom_views [of now uid rid s] obtain r u where
    "rooms s rid = Some r" "users s uid = Some u"
    "members (step c s) = (members s)(rid \<mapsto> remove1 uid (participants r))"
    "joined (step c s) = (joined s)(uid \<mapsto> remove1 rid (joinedRooms u))"
    by auto
  moreover from this have "members s rid = Some (participants r)"
    "joined s uid = Some (joinedRooms u)" by (simp_all add: members_def joined_def)
  ultimately show ?thesis
    using assms(1) by (simp add: mem_inv_def consistent_leave)
next
  case (SendVoiceMessage m now uid rid d k)
  with assms(1) show ?thesis by (simp add: send_mem_inv)
next
  case (BroadcastVoiceMessage gen now uid rid d ts)
  with assms(1) show ?thesis
    using broadcast_preserves [of mem_inv now uid rid d s gen ts] by (simp add: send_mem_inv)
qed

lemma run_mem_inv: "mem_inv s \<Longrightarrow> calls_succeed cs s \<Longrightarrow> mem_inv (run cs s)"
  by (induction cs arbitrary: s) (simp_all add: step_mem_inv)

lemma init_mem_inv: "mem_inv init"
  by (simp add: mem_inv_def consistent_def listed_def all_distinct_def members_def
        joined_def init_def)

text \<open>
  C10. In every state reached from the empty state through calls that return normally
  (users and rooms created under fresh identifiers, joins, leaves, sends, broadcasts),
  a user is in the participant list of a room exactly when the room is in the list of
  joined rooms of that user.
\<close>

theorem membership_consistent:
  "calls_succeed cs init \<Longrightarrow>
   (\<exists>r. rooms (run cs init) rid = Some r \<and> uid \<in> set (participants r)) \<longleftrightarrow>
   (\<exists>u. users (run cs init) uid = Some u \<and> rid \<in> set (joinedRooms u))"
proof -
  assume "calls_succeed cs init"
  then have "mem_inv (run cs init)" using init_mem_inv by (rule run_mem_inv [rotated])
  then have "listed (members (run cs init)) rid uid \<longleftrightarrow> listed (joined (run cs init)) uid rid"
    by (simp add: mem_inv_def consistent_def)
  then show ?thesis
    by (auto simp: listed_def members_def joined_def)
qed

theorem membership_consistent_witness:
  "calls_succeed session init \<and>
   ((\<exists>r. rooms (run session init) ''r1'' = Some r \<and> ''bob'' \<in> set (participants r)) \<longleftrightarrow>
    (\<exists>u. users (run session init) ''bob'' = Some u \<and> ''r1'' \<in> set (joinedRooms u))) \<and>
   map_option participants (rooms (run session init) ''r1'') = Some [''bob''] \<and>
   map_option joinedRooms (users (run session init) ''bob'') = Some [''r1''] \<and>
   map_option joinedRooms (users (run session init) ''alice'') = Some []"
proof -
  have h: "calls_succeed session init"
    by (simp add: session_def alice_room_def ops_defs)
  have "map_option participants (rooms (run session init) ''r1'') = Some [''bob''] \<and>
   map_option joinedRooms (users (run session init) ''bob'') = Some [''r1''] \<and>
   map_option joinedRooms (users (run session init) ''alice'') = Some []"
    by (simp add: session_def alice_room_def ops_defs)
  with h membership_consistent [OF h, of "''r1''" "''bob''"] show ?thesis by blast
qed

section \<open>Properties of the reallocation client\<close>

lemma loop_below:
  "below_target L t c \<Longrightarrow> i < m \<Longrightarrow>
   realloc_loop L t m i k c = realloc_loop L t m (i + 1) (Suc k) (after_iteration L t c)"
  by (auto simp: below_target_def after_iteration_def realloc_loop.simps [of L t m i k c]
           split: prod.splits option.splits sum.splits)

lemma loop_stops:
  "stops L t c \<Longrightarrow> i < m \<Longrightarrow>
   realloc_loop L t m i k c = (Inr (), Suc k, stop_state L t c)"
  by (auto simp: stops_def stop_state_def inner_catch_def realloc_loop.simps [of L t m i k c]
           split: prod.splits option.splits sum.splits)

lemma loop_steps:
  "(\<And>j. j < n \<Longrightarrow> below_target L t ((after_iteration L t ^^ j) c)) \<Longrightarrow> i + int n \<le> m \<Longrightarrow>
   realloc_loop L t m i k c =
     realloc_loop L t m (i + int n) (k + n) ((after_iteration L t ^^ n) c)"
proof (induction n arbitrary: i k c)
  case 0
  show ?case by simp
next
  case (Suc n)
  from Suc.prems(1) [of 0] have b: "below_target L t c" by simp
  from Suc.prems(2) have lt: "i < m" by simp
  have later: "below_target L t ((after_iteration L t ^^ j) (after_iteration L t c))"
    if "j < n" for j
    using Suc.prems(1) [of "Suc j"] that by (simp add: funpow_swap1)
  from Suc.prems(2) have le: "(i + 1) + int n \<le> m" by simp
  have "realloc_loop L t m i k c = realloc_loop L t m (i + 1) (Suc k) (after_iteration L t c)"
    using b lt by (rule loop_below)
  also have "\<dots> = realloc_loop L t m ((i + 1) + int n) (Suc k + n)
      ((after_iteration L t ^^ n) (after_iteration L t c))"
    using later le by (rule Suc.IH)
  finally show ?case by (simp add: funpow_swap1 add.commute add.left_commute)
qed

lemma loop_done: "\<not> i < m \<Longrightarrow> realloc_loop L t m i k c = (Inr (), k, c)"
  by (simp add: realloc_loop.simps [of L t m i k c])

lemma calls_bound:
  "fst (snd (realloc_loop L t m i k c)) \<le> k + nat (m - i)"
proof (induction L t m i k c rule: realloc_loop.induct)
  case (1 L t m i k c)
  show ?case
  proof (cases "i < m")
    case False
    then show ?thesis by (simp add: loop_done)
  next
    case True
    obtain r c' where rpc: "reallocatePdaAccount_rpc L t c = (r, c')"
      by (cases "reallocatePdaAccount_rpc L t c")
    obtain a c'' where rd: "getAccountInfo_length L c' = (a, c'')"
      by (cases "getAccountInfo_length L c'")
    show ?thesis
    proof (cases r)
      case (Some e)
      with True rpc show ?thesis
        by (cases e) (simp_all add: realloc_loop.simps [of L t m i k c] inner_catch_def)
    next
      case None
      show ?thesis
      proof (cases a)
        case (Inl e)
        with True rpc rd None show ?thesis
          by (cases e) (simp_all add: realloc_loop.simps [of L t m i k c] inner_catch_def)
      next
        case (Inr sz)
        show ?thesis
        proof (cases "t \<le> sz")
          case True
          with \<open>i < m\<close> rpc rd None Inr show ?thesis
            by (simp add: realloc_loop.simps [of L t m i k c])
        next
          case False
          have "fst (snd (realloc_loop L t m (i + 1) (Suc k) c'')) \<le> Suc k + nat (m - (i + 1))"
            using "1.IH" [OF True rpc [symmetric] _ rd [symmetric] _ False] None Inr by simp
          with \<open>i < m\<close> rpc rd None Inr False show ?thesis
            by (simp add: realloc_loop.simps [of L t m i k c])
        qed
      qed
    qed
  qed
qed

lemma run_calls_bound:
  "fst (snd (reallocatePDAToTargetSize L t c)) \<le> nat (maxIterations t)"
proof -
  let ?c0 = "getReallocationStepsNeeded_rpc L t c"
  obtain res k c' where loop: "realloc_loop L t (maxIterations t) 0 0 ?c0 = (res, k, c')"
    by (cases "realloc_loop L t (maxIterations t) 0 0 ?c0")
  from calls_bound [of L t "maxIterations t" 0 0 ?c0] loop
  have "k \<le> nat (maxIterations t)" by simp
  with loop show ?thesis
    by (cases res)
       (auto simp: reallocatePDAToTargetSize_def final_read_def split: prod.splits sum.splits)
qed

lemma run_exhausted:
  assumes "\<And>j. j < nat (maxIterations t) \<Longrightarrow> below_target L t (start_state L t j c)"
  shows "reallocatePDAToTargetSize L t c =
           final_read L (nat (maxIterations t)) (start_state L t (nat (maxIterations t)) c)"
proof -
  let ?c0 = "getReallocationStepsNeeded_rpc L t c"
  let ?n = "nat (maxIterations t)"
  have "realloc_loop L t (maxIterations t) 0 0 ?c0 =
          (Inr (), ?n, (after_iteration L t ^^ ?n) ?c0)"
  proof (cases "0 \<le> maxIterations t")
    case True
    have "realloc_loop L t (maxIterations t) 0 0 ?c0 =
          realloc_loop L t (maxIterations t) (0 + int ?n) (0 + ?n)
            ((after_iteration L t ^^ ?n) ?c0)"
      using assms True by (intro loop_steps) (simp_all add: start_state_def)
    also have "\<dots> = (Inr (), ?n, (after_iteration L t ^^ ?n) ?c0)"
      using True by (simp add: loop_done)
    finally show ?thesis .
  next
    case False
    then show ?thesis by (simp add: loop_done)
  qed
  then show ?thesis
    by (simp add: reallocatePDAToTargetSize_def start_state_def)
qed

lemma run_stops_early:
  assumes "\<And>j. j < n \<Longrightarrow> below_target L t (start_state L t j c)"
    and "int n < maxIterations t" and "stops L t (start_state L t n c)"
  shows "reallocatePDAToTargetSize L t c =
           final_read L (Suc n) (stop_state L t (start_state L t n c))"
proof -
  let ?c0 = "getReallocationStepsNeeded_rpc L t c"
  have "realloc_loop L t (maxIterations t) 0 0 ?c0 =
        realloc_loop L t (maxIterations t) (0 + int n) (0 + n)
          ((after_iteration L t ^^ n) ?c0)"
    using assms(1,2) by (intro loop_steps) (simp_all add: start_state_def)
  also have "\<dots> = (Inr (), Suc n, stop_state L t ((after_iteration L t ^^ n) ?c0))"
    using assms(2,3) by (simp add: loop_stops start_state_def)
  finally show ?thesis
    by (simp add: reallocatePDAToTargetSize_def start_state_def)
qed


lemma maxIterations_35840: "maxIterations 35840 = 3"
  by (simp add: maxIterations_def)

lemmas ledger_defs = growing_def half_steps_def small_steps_def full_steps_def unreadable_def
  start_state_def after_iteration_def below_target_def stops_def stop_state_def final_read_def

text \<open>
  C7, as the claim states it, fails: the number of steps is computed from the constant
  10240, not from the size the account has. An account that already has 30720 bytes
  and is to reach 35840 bytes is one step of 10240 bytes away, but the loop is planned
  for three steps, and a ledger that grows the account by 2048 bytes per reallocation
  gets three reallocations.
\<close>

theorem steps_ignore_observed_size:
  "getAccountInfo_length small_steps 30720 = (Inr 30720, 30720) \<and>
   \<lceil>(35840 - real_of_int 30720) / 10240\<rceil> = 1 \<and>
   maxIterations 35840 = 3 \<and>
   reallocatePDAToTargetSize small_steps 35840 30720 = (Inr (), 3, 35840)"
  by (simp add: reallocatePDAToTargetSize_def maxIterations_def ledger_defs
        realloc_loop.simps ceiling_eq_iff)

text \<open>
  C7, amended. The number of steps planned is the ceiling of (targetSize - 10240) / 10240
  whatever size the account has when the run starts: no run submits more reallocations
  than that, and a run in which each of that many iterations succeeds and reads a size
  below the target submits exactly that many (none if the number is not positive).
\<close>

theorem steps_from_initial_size:
  "exact_double_range t \<Longrightarrow>
   fst (snd (reallocatePDAToTargetSize L t c)) \<le> nat \<lceil>(real_of_int t - 10240) / 10240\<rceil> \<and>
   ((\<forall>j < nat \<lceil>(real_of_int t - 10240) / 10240\<rceil>. below_target L t (start_state L t j c)) \<longrightarrow>
      fst (snd (reallocatePDAToTargetSize L t c)) = nat \<lceil>(real_of_int t - 10240) / 10240\<rceil>)"
  using run_calls_bound [of L t c] run_exhausted [of t L c]
  by (auto simp: maxIterations_def final_read_def split: prod.splits sum.splits)

text \<open>
  A run started on an account of 20480 bytes, two steps of 10240 bytes away from 35840,
  on the ledger that grows by 2048 bytes: three reallocations.
\<close>

theorem steps_from_initial_size_witness:
  "getAccountInfo_length small_steps 20480 = (Inr 20480, 20480) \<and>
   fst (snd (reallocatePDAToTargetSize small_steps 35840 20480)) = 3"
proof -
  have r: "exact_double_range 35840" by (simp add: exact_double_range_def)
  have n: "nat \<lceil>(real_of_int 35840 - 10240) / 10240\<rceil> = Suc (Suc (Suc 0))" by simp
  have h: "\<forall>j < nat \<lceil>(real_of_int 35840 - 10240) / 10240\<rceil>.
             below_target small_steps 35840 (start_state small_steps 35840 j 20480)"
    unfolding n by (simp add: All_less_Suc ledger_defs)
  from steps_from_initial_size [OF r, of small_steps 20480] h n show ?thesis
    by (simp add: ledger_defs)
qed

text \<open>
  C8, as the claim states it, fails: when the bound is exhausted the source only reads
  and logs the final size and returns. On a ledger that grows the account by 5120 bytes
  per reallocation, the run from 10240 bytes towards 35840 bytes returns normally after
  three reallocations, with the account at 25600 bytes.
\<close>

theorem exhausted_bound_returns_normally:
  "reallocatePDAToTargetSize half_steps 35840 10240 = (Inr (), 3, 25600) \<and>
   getAccountInfo_length half_steps 25600 = (Inr 25600, 25600)"
  by (simp add: reallocatePDAToTargetSize_def maxIterations_def ledger_defs realloc_loop.simps)

text \<open>
  C8, amended. The run submits at most ceiling ((targetSize - 10240) / 10240)
  reallocations, with no slack. When, after \<open>n\<close> iterations that went on, an iteration
  within the bound reads a size at or above the target or meets NoReallocNeeded, the
  loop ends there, after \<open>n + 1\<close> reallocations. When all iterations within the bound go
  on with a size below the target, the loop ends at the bound. In both cases the outcome
  of the run is the outcome of the final size read: a normal return when it succeeds,
  the error of the read when it fails, and no other error. For the target 35840 the
  bound is 3.
\<close>

theorem reallocation_bounded:
  "exact_double_range t \<Longrightarrow>
   fst (snd (reallocatePDAToTargetSize L t c)) \<le> nat (maxIterations t) \<and>
   (int n < maxIterations t \<and> (\<forall>j<n. below_target L t (start_state L t j c)) \<and>
      stops L t (start_state L t n c) \<longrightarrow>
      reallocatePDAToTargetSize L t c =
        final_read L (Suc n) (stop_state L t (start_state L t n c))) \<and>
   ((\<forall>j < nat (maxIterations t). below_target L t (start_state L t j c)) \<longrightarrow>
      reallocatePDAToTargetSize L t c =
        final_read L (nat (maxIterations t)) (start_state L t (nat (maxIterations t)) c)) \<and>
   maxIterations 35840 = 3"
  using run_calls_bound [of L t c] run_exhausted [of t L c] run_stops_early [of n L t c]
  by (simp add: maxIterations_35840)

text \<open>
  The target reached in the third iteration; NoReallocNeeded in the first; the bound
  exhausted at 25600 bytes with a normal return; the bound exhausted and the final read
  failing.
\<close>

theorem reallocation_bounded_witness:
  "reallocatePDAToTargetSize full_steps 35840 10240 = (Inr (), 3, 35840) \<and>
   reallocatePDAToTargetSize full_steps 35840 35840 = (Inr (), 1, 35840) \<and>
   reallocatePDAToTargetSize half_steps 35840 10240 = (Inr (), 3, 25600) \<and>
   reallocatePDAToTargetSize unreadable 35840 (10240, 3) =
     (Inl (OtherRpcError ''failed to get info about account''), 3, (25600, 0))"
proof -
  have r: "exact_double_range 35840" by (simp add: exact_double_range_def)
  have m: "maxIterations 35840 = 3" by (rule maxIterations_35840)
  have n3: "nat 3 = Suc (Suc (Suc 0))" by simp
  have a: "int (Suc (Suc 0)) < maxIterations 35840 \<and>
      (\<forall>j<Suc (Suc 0). below_target full_steps 35840 (start_state full_steps 35840 j 10240)) \<and>
      stops full_steps 35840 (start_state full_steps 35840 (Suc (Suc 0)) 10240)"
    by (simp add: m All_less_Suc ledger_defs)
  have b: "int 0 < maxIterations 35840 \<and>
      (\<forall>j<0. below_target full_steps 35840 (start_state full_steps 35840 j 35840)) \<and>
      stops full_steps 35840 (start_state full_steps 35840 0 35840)"
    by (simp add: m ledger_defs)
  have c: "\<forall>j < nat (maxIterations 35840).
      below_target half_steps 35840 (start_state half_steps 35840 j 10240)"
    unfolding m n3 by (simp add: All_less_Suc ledger_defs)
  have d: "\<forall>j < nat (maxIterations 35840).
      below_target unreadable 35840 (start_state unreadable 35840 j (10240, 3))"
    unfolding m n3 by (simp add: All_less_Suc ledger_defs)
  from reallocation_bounded [OF r, of full_steps 10240 "Suc (Suc 0)"] a
  have 1: "reallocatePDAToTargetSize full_steps 35840 10240 = (Inr (), 3, 35840)"
    by (simp add: ledger_defs)
  from reallocation_bounded [OF r, of full_steps 35840 0] b
  have 2: "reallocatePDAToTargetSize full_steps 35840 35840 = (Inr (), 1, 35840)"
    by (simp add: ledger_defs)
  from reallocation_bounded [OF r, of half_steps 10240 0] c
  have "reallocatePDAToTargetSize half_steps 35840 10240 =
      final_read half_steps (nat (maxIterations 35840))
        (start_state half_steps 35840 (nat (maxIterations 35840)) 10240)"
    by blast
  also have "\<dots> = (Inr (), 3, 25600)"
    unfolding m n3 by (simp add: ledger_defs)
  finally have 3: "reallocatePDAToTargetSize half_steps 35840 10240 = (Inr (), 3, 25600)" .
  from reallocation_bounded [OF r, of unreadable "(10240, 3)" 0] d
  have "reallocatePDAToTargetSize unreadable 35840 (10240, 3) =
      final_read unreadable (nat (maxIterations 35840))
        (start_state unreadable 35840 (nat (maxIterations 35840)) (10240, 3))"
    by blast
  also have "\<dots> = (Inl (OtherRpcError ''failed to get info about account''), 3, (25600, 0))"
    unfolding m n3 by (simp add: ledger_defs)
  finally have 4: "reallocatePDAToTargetSize unreadable 35840 (10240, 3) =
     (Inl (OtherRpcError ''failed to get info about account''), 3, (25600, 0))" .
  from 1 2 3 4 show ?thesis by blast
qed

end
